theory Spec2Isabelle
  imports Main "HOL-Library.Multiset" "HOL-Library.Sublist"
begin

section \<open>JavaScript arrays\<close>

text \<open>
  The program is JavaScript. An array slot holds a value or \<^verbatim>\<open>undefined\<close>: an array of
  values of type \<open>'a\<close> is a list of \<open>'a option\<close>, with \<open>None\<close> for \<^verbatim>\<open>undefined\<close>.
  Reading a property of \<^verbatim>\<open>undefined\<close> or \<^verbatim>\<open>null\<close> throws a TypeError; a function
  that can throw returns \<open>error + 'a\<close>. Indices are integers (\<open>int\<close>); the fractional and
  non-finite numbers of JavaScript are outside the model.
\<close>

datatype error = TypeError

type_synonym 'a array = "'a option list"

text \<open>\<^verbatim>\<open>items[index]\<close>: the element, or \<^verbatim>\<open>undefined\<close> when the index is not one of the array.\<close>

definition at_index :: "'a array \<Rightarrow> int \<Rightarrow> 'a option" where
  "at_index xs i = (if 0 \<le> i \<and> i < int (length xs) then xs ! nat i else None)"

text \<open>
  The start position of \<^verbatim>\<open>Array.prototype.slice\<close> and \<^verbatim>\<open>Array.prototype.splice\<close>:
  a negative start counts from the end, and the result is clamped to \<open>[0, len]\<close>.
\<close>

definition actualStart :: "nat \<Rightarrow> int \<Rightarrow> nat" where
  "actualStart len start =
     (if start < 0 then nat (max (int len + start) 0) else min (nat start) len)"

text \<open>\<^verbatim>\<open>xs.slice(start)\<close>: a new array, from the start position to the end.\<close>

definition slice :: "'a list \<Rightarrow> int \<Rightarrow> 'a list" where
  "slice xs start = drop (actualStart (length xs) start) xs"

text \<open>
  \<^verbatim>\<open>xs.splice(start, 1)\<close>: removes at most one element at the start position; the pair is
  the array afterwards and the array of removed elements (empty when the start position
  is the end of the array).
\<close>

definition splice_delete1 :: "'a list \<Rightarrow> int \<Rightarrow> 'a list \<times> 'a list" where
  "splice_delete1 xs start =
     (let k = actualStart (length xs) start
      in (take k xs @ drop (Suc k) xs, take 1 (drop k xs)))"

text \<open>\<^verbatim>\<open>xs.splice(start, 0, x)\<close>: inserts \<open>x\<close> at the start position.\<close>

definition splice_insert :: "'a list \<Rightarrow> int \<Rightarrow> 'a \<Rightarrow> 'a list" where
  "splice_insert xs start x =
     (let k = actualStart (length xs) start in take k xs @ x # drop k xs)"

text \<open>
  Modelled from the spec: \<^verbatim>\<open>arrayMove\<close> is imported from the package
  \<^verbatim>\<open>@dnd-kit/sortable\<close> and its code is not part of the repository. Section 4.2 of
  the spec: move
  "removes the entity at oldIndex and reinserts it at newIndex, shifting intervening
  entities by one position". The definition is the package's function,
  \<^verbatim>\<open>
  const newArray = array.slice();
  newArray.splice(to < 0 ? newArray.length + to : to, 0, newArray.splice(from, 1)[0]);
  return newArray;
  \<close>
  which is the spec's sentence for indices inside \<open>[0, length)\<close>. The first argument of
  the outer splice is evaluated before the inner splice shortens the array. Where the
  inner splice removes nothing (\<open>from\<close> at or beyond the length), \<^verbatim>\<open>[0]\<close> of the empty
  array is \<^verbatim>\<open>undefined\<close>, and that is what is inserted. No caller checks an index
  against the length, and none handles a failure of \<^verbatim>\<open>arrayMove\<close>.
\<close>

definition arrayMove :: "'a array \<Rightarrow> int \<Rightarrow> int \<Rightarrow> 'a array" where
  "arrayMove array from to =
     (let start = (if to < 0 then int (length array) + to else to);
          (newArray, removed) = splice_delete1 array from;
          item = (case removed of [] \<Rightarrow> None | x # _ \<Rightarrow> x)
      in splice_insert newArray start item)"

text \<open>The entities that an array holds, in order: its slots that are not \<^verbatim>\<open>undefined\<close>.\<close>

definition entities :: "'a array \<Rightarrow> 'a list" where
  "entities xs = map the (filter (\<lambda>x. x \<noteq> None) xs)"

text \<open>
  \<^verbatim>\<open>xs.findIndex(p)\<close>: the index of the first element that satisfies \<open>p\<close>, or \<open>-1\<close>;
  an exception of \<open>p\<close> ends the search.
\<close>

fun findIndex :: "('a \<Rightarrow> error + bool) \<Rightarrow> 'a list \<Rightarrow> error + int" where
  "findIndex p [] = Inr (- 1)"
| "findIndex p (x # xs) =
     (case p x of
        Inl e \<Rightarrow> Inl e
      | Inr True \<Rightarrow> Inr 0
      | Inr False \<Rightarrow>
          (case findIndex p xs of
             Inl e \<Rightarrow> Inl e
           | Inr i \<Rightarrow> Inr (if i = - 1 then - 1 else i + 1)))"

text \<open>\<^verbatim>\<open>xs.filter(p)\<close> for a predicate on the element that can throw.\<close>

fun filter_throwing :: "('a \<Rightarrow> error + bool) \<Rightarrow> 'a list \<Rightarrow> error + 'a list" where
  "filter_throwing p [] = Inr []"
| "filter_throwing p (x # xs) =
     (case p x of
        Inl e \<Rightarrow> Inl e
      | Inr keep \<Rightarrow>
          (case filter_throwing p xs of
             Inl e \<Rightarrow> Inl e
           | Inr ys \<Rightarrow> Inr (if keep then x # ys else ys)))"

section \<open>Entities, requests and history entries\<close>

text \<open>
  An item text is one of the initial strings, or the template literal of
  \<^verbatim>\<open>handleAddGeneratedItem\<close> with its number (the text itself has non-ASCII letters
  and is not spelled out).
\<close>

datatype itemText = Text string | NewItemText int

text \<open>An entity \<^verbatim>\<open>{id, value}\<close>.\<close>

record entity =
  itemId :: string
  itemValue :: itemText

text \<open>
  The event of the gesture layer, \<^verbatim>\<open>{active, over}\<close>: each is an object with an
  \<^verbatim>\<open>id\<close>, or \<^verbatim>\<open>null\<close> (\<open>None\<close>).
\<close>

record 'r event =
  active :: "'r option"
  over :: "'r option"

text \<open>The object that \<^verbatim>\<open>handleDragEnd\<close> returns after a move.\<close>

record 'r moveResult =
  oldIndex :: int
  newIndex :: int
  activeId :: 'r
  overId :: 'r

datatype variantType = WRONG | GENERATED | CORRECT | ALL

text \<open>
  The message of a history entry: the template and the values put into it.
  \<open>MOVE_ITEM\<close>, \<open>DELETE_ITEM\<close> and \<open>ADD_ITEM\<close> are the templates of \<^verbatim>\<open>MESSAGES\<close>
  (\<open>DELETE_ITEM\<close> ignores its second argument); the other three are the template
  literals written in the handlers.
\<close>

datatype message =
    MOVE_ITEM int int
  | DELETE_ITEM "string option"
  | ADD_ITEM itemText
  | MovedIdToPosition string int
  | MovedIndexToIndex int int
  | DeletedAtIndex "string option" int

record entry =
  type :: variantType
  message :: message
  timestamp :: string
  warning :: bool

section \<open>constants/index.js\<close>

definition HISTORY_DISPLAY_LIMIT :: int where
  "HISTORY_DISPLAY_LIMIT = 5"

section \<open>hooks/useHistory.js\<close>

text \<open>
  \<open>now\<close> is the string that \<^verbatim>\<open>new Date().toLocaleTimeString()\<close> gives at the call.
\<close>

definition addHistoryEntry ::
  "entry list \<Rightarrow> variantType \<Rightarrow> message \<Rightarrow> bool \<Rightarrow> string \<Rightarrow> entry list" where
  "addHistoryEntry prevHistory ty msg isWarning now =
     prevHistory @ [\<lparr>type = ty, message = msg, timestamp = now, warning = isWarning\<rparr>]"

text \<open>A sequence of calls of \<^verbatim>\<open>addHistoryEntry\<close>, each with its arguments and its time.\<close>

fun addHistoryEntries ::
  "entry list \<Rightarrow> (variantType \<times> message \<times> bool \<times> string) list \<Rightarrow> entry list" where
  "addHistoryEntries h [] = h"
| "addHistoryEntries h ((ty, msg, isWarning, now) # calls) =
     addHistoryEntries (addHistoryEntry h ty msg isWarning now) calls"

definition clearHistory :: "entry list" where
  "clearHistory = []"

definition getRecentHistory :: "'e list \<Rightarrow> 'e list" where
  "getRecentHistory history = rev (slice history (- HISTORY_DISPLAY_LIMIT))"

text \<open>
  The same function over an explicit store of arrays, since \<^verbatim>\<open>reverse\<close> works in
  place. A reference is a position in the store; \<^verbatim>\<open>slice\<close> allocates the copy at a
  new reference and \<^verbatim>\<open>reverse\<close> overwrites the array it is called on and returns the
  same reference. \<open>None\<close> stands for a reference that is not in the store, which
  JavaScript cannot produce.
\<close>

type_synonym 'e store = "'e list list"

definition slice_ref :: "'e store \<Rightarrow> nat \<Rightarrow> int \<Rightarrow> ('e store \<times> nat) option" where
  "slice_ref s r start =
     (if r < length s then Some (s @ [slice (s ! r) start], length s) else None)"

definition reverse_ref :: "'e store \<Rightarrow> nat \<Rightarrow> ('e store \<times> nat) option" where
  "reverse_ref s r = (if r < length s then Some (s[r := rev (s ! r)], r) else None)"

definition getRecentHistory_ref :: "'e store \<Rightarrow> nat \<Rightarrow> ('e store \<times> nat) option" where
  "getRecentHistory_ref s history =
     (case slice_ref s history (- HISTORY_DISPLAY_LIMIT) of
        None \<Rightarrow> None
      | Some (s1, copy) \<Rightarrow> reverse_ref s1 copy)"

section \<open>hooks/useDragAndDrop.js\<close>

text \<open>
  The hook is created either with a \<^verbatim>\<open>findIndexById\<close> function (identity mode: the
  references are ids) or without one (index mode: the references are positions, and
  \<^verbatim>\<open>active.id\<close> is used as the index). Each function of the hook is given once for
  each of the two cases, since the references have different types in them.
  The pair returned is the item array after the call and the value returned to the
  caller (\<open>None\<close> for \<^verbatim>\<open>null\<close>).
\<close>

definition handleDragEnd_byId ::
  "('a array \<Rightarrow> 'r \<Rightarrow> error + int) \<Rightarrow> 'a array \<Rightarrow> 'r event
     \<Rightarrow> error + ('a array \<times> 'r moveResult option)" where
  "handleDragEnd_byId findIndexById items ev =
     (case over ev of
        None \<Rightarrow> Inr (items, None)
      | Some overI \<Rightarrow>
          (case active ev of
             None \<Rightarrow> Inl TypeError
           | Some activeI \<Rightarrow>
               if activeI = overI then Inr (items, None)
               else
                 (case findIndexById items activeI of
                    Inl e \<Rightarrow> Inl e
                  | Inr oldI \<Rightarrow>
                      (case findIndexById items overI of
                         Inl e \<Rightarrow> Inl e
                       | Inr newI \<Rightarrow>
                           if oldI = - 1 \<or> newI = - 1 then Inr (items, None)
                           else Inr (arrayMove items oldI newI,
                                     Some \<lparr>oldIndex = oldI, newIndex = newI,
                                            activeId = activeI, overId = overI\<rparr>)))))"

definition handleDragEnd_byIndex ::
  "'a array \<Rightarrow> int event \<Rightarrow> error + ('a array \<times> int moveResult option)" where
  "handleDragEnd_byIndex items ev =
     (case over ev of
        None \<Rightarrow> Inr (items, None)
      | Some overI \<Rightarrow>
          (case active ev of
             None \<Rightarrow> Inl TypeError
           | Some activeI \<Rightarrow>
               if activeI = overI then Inr (items, None)
               else
                 (let oldI = activeI; newI = overI
                  in if oldI = - 1 \<or> newI = - 1 then Inr (items, None)
                     else Inr (arrayMove items oldI newI,
                               Some \<lparr>oldIndex = oldI, newIndex = newI,
                                      activeId = activeI, overId = overI\<rparr>))))"

definition deleteItem_byId :: "string \<Rightarrow> entity array \<Rightarrow> error + entity array" where
  "deleteItem_byId idOrIndex prevItems =
     filter_throwing
       (\<lambda>item. case item of
                 None \<Rightarrow> Inl TypeError
               | Some e \<Rightarrow> Inr (itemId e \<noteq> idOrIndex))
       prevItems"

definition deleteItem_byIndex :: "int \<Rightarrow> 'a array \<Rightarrow> 'a array" where
  "deleteItem_byIndex idOrIndex prevItems =
     map snd (filter (\<lambda>(index, _). int index \<noteq> idOrIndex) (enumerate 0 prevItems))"

definition addItem :: "'a \<Rightarrow> 'a list \<Rightarrow> 'a list" where
  "addItem item prevItems = prevItems @ [item]"

section \<open>utils/idGenerators.js\<close>

text \<open>
  \<^verbatim>\<open>createItemWithId\<close>: \<open>generated\<close> is what the chosen generator returns at the call
  (a random string for the default generator).
\<close>

definition createItemWithId :: "string \<Rightarrow> itemText \<Rightarrow> entity" where
  "createItemWithId generated v = \<lparr>itemId = generated, itemValue = v\<rparr>"

section \<open>App.refactored.jsx\<close>

text \<open>The state of the application: the items of the three hooks and the history.\<close>

record app =
  wrongItems :: "string array"
  generatedItems :: "entity array"
  correctItems :: "entity array"
  history :: "entry list"

text \<open>The function passed to the hook as \<^verbatim>\<open>findIndexById\<close>.\<close>

definition findIndexById :: "entity array \<Rightarrow> string \<Rightarrow> error + int" where
  "findIndexById items i =
     findIndex
       (\<lambda>item. case item of
                 None \<Rightarrow> Inl TypeError
               | Some e \<Rightarrow> Inr (itemId e = i))
       items"

definition handleWrongDragEnd :: "app \<Rightarrow> int event \<Rightarrow> string \<Rightarrow> error + app" where
  "handleWrongDragEnd st ev now =
     (case handleDragEnd_byIndex (wrongItems st) ev of
        Inl e \<Rightarrow> Inl e
      | Inr (newItems, None) \<Rightarrow> Inr (st\<lparr>wrongItems := newItems\<rparr>)
      | Inr (newItems, Some result) \<Rightarrow>
          Inr (st\<lparr>wrongItems := newItems,
                  history := addHistoryEntry (history st) WRONG
                               (MOVE_ITEM (oldIndex result) (newIndex result)) False now\<rparr>))"

definition handleWrongDelete :: "app \<Rightarrow> int \<Rightarrow> string \<Rightarrow> app" where
  "handleWrongDelete st index now =
     (let deletedItem = at_index (wrongItems st) index
      in st\<lparr>wrongItems := deleteItem_byIndex index (wrongItems st),
            history := addHistoryEntry (history st) WRONG (DELETE_ITEM deletedItem) True now\<rparr>)"

definition handleGeneratedDragEnd :: "app \<Rightarrow> string event \<Rightarrow> string \<Rightarrow> error + app" where
  "handleGeneratedDragEnd st ev now =
     (case handleDragEnd_byId findIndexById (generatedItems st) ev of
        Inl e \<Rightarrow> Inl e
      | Inr (newItems, None) \<Rightarrow> Inr (st\<lparr>generatedItems := newItems\<rparr>)
      | Inr (newItems, Some result) \<Rightarrow>
          Inr (st\<lparr>generatedItems := newItems,
                  history := addHistoryEntry (history st) GENERATED
                               (MovedIdToPosition (activeId result) (newIndex result))
                               False now\<rparr>))"

definition handleAddGeneratedItem :: "app \<Rightarrow> string \<Rightarrow> string \<Rightarrow> app" where
  "handleAddGeneratedItem st generated now =
     (let newValue = NewItemText (int (length (generatedItems st)) + 1);
          newItem = createItemWithId generated newValue
      in st\<lparr>generatedItems := addItem (Some newItem) (generatedItems st),
            history := addHistoryEntry (history st) GENERATED (ADD_ITEM newValue) False now\<rparr>)"

section \<open>App.jsx\<close>

text \<open>
  The handlers of the older single-file application, on the same state
  (\<^verbatim>\<open>dragHistory\<close> is the field \<open>history\<close>). They read \<^verbatim>\<open>active.id\<close> and
  \<^verbatim>\<open>over.id\<close> with no check for \<^verbatim>\<open>null\<close>, and build the history entry in place;
  the entries of a move have no \<^verbatim>\<open>warning\<close> field, which reads as false.
\<close>

definition handleWrongDragEnd_App :: "app \<Rightarrow> int event \<Rightarrow> string \<Rightarrow> error + app" where
  "handleWrongDragEnd_App st ev now =
     (case active ev of
        None \<Rightarrow> Inl TypeError
      | Some activeI \<Rightarrow>
          (case over ev of
             None \<Rightarrow> Inl TypeError
           | Some overI \<Rightarrow>
               if activeI \<noteq> overI then
                 (let oldI = activeI; newI = overI;
                      newItems = arrayMove (wrongItems st) oldI newI
                  in Inr (st\<lparr>wrongItems := newItems,
                             history := history st @
                               [\<lparr>type = WRONG, message = MovedIndexToIndex oldI newI,
                                 timestamp = now, warning = False\<rparr>]\<rparr>))
               else Inr st))"

definition handleCorrectDragEnd_App :: "app \<Rightarrow> string event \<Rightarrow> string \<Rightarrow> error + app" where
  "handleCorrectDragEnd_App st ev now =
     (case active ev of
        None \<Rightarrow> Inl TypeError
      | Some activeI \<Rightarrow>
          (case over ev of
             None \<Rightarrow> Inl TypeError
           | Some overI \<Rightarrow>
               if activeI \<noteq> overI then
                 (case findIndexById (correctItems st) activeI of
                    Inl e \<Rightarrow> Inl e
                  | Inr oldI \<Rightarrow>
                      (case findIndexById (correctItems st) overI of
                         Inl e \<Rightarrow> Inl e
                       | Inr newI \<Rightarrow>
                           (let newItems = arrayMove (correctItems st) oldI newI
                            in Inr (st\<lparr>correctItems := newItems,
                                       history := history st @
                                         [\<lparr>type = CORRECT,
                                           message = MovedIdToPosition activeI newI,
                                           timestamp = now, warning = False\<rparr>]\<rparr>))))
               else Inr st))"

definition handleWrongDelete_App :: "app \<Rightarrow> int \<Rightarrow> string \<Rightarrow> app" where
  "handleWrongDelete_App st index now =
     (let items = wrongItems st;
          deletedItem = at_index items index
      in st\<lparr>history := history st @
              [\<lparr>type = WRONG, message = DeletedAtIndex deletedItem index,
                timestamp = now, warning = True\<rparr>],
            wrongItems := map snd (filter (\<lambda>(i, _). int i \<noteq> index) (enumerate 0 items))\<rparr>)"

section \<open>Lemmas about the array functions\<close>

lemma actualStart_le: "actualStart len i \<le> len"
  by (auto simp: actualStart_def)

lemma actualStart_index: "0 \<le> i \<Longrightarrow> i < int len \<Longrightarrow> actualStart len i = nat i"
  by (simp add: actualStart_def)

lemma actualStart_last: "0 < len \<Longrightarrow> actualStart len (- 1) = len - 1"
  by (simp add: actualStart_def)

lemma mset_splice_insert: "mset (splice_insert xs s x) = add_mset x (mset xs)"
proof -
  have "mset (take k xs @ x # drop k xs) = add_mset x (mset xs)" for k
    by (metis append_take_drop_id mset_append union_mset_add_mset_right mset.simps(2))
  then show ?thesis by (simp add: splice_insert_def Let_def)
qed

lemma splice_delete1_hit:
  assumes "actualStart (length xs) i < length xs"
  shows "splice_delete1 xs i =
           (take (actualStart (length xs) i) xs @ drop (Suc (actualStart (length xs) i)) xs,
            [xs ! actualStart (length xs) i])"
  using assms by (simp add: splice_delete1_def Let_def take_Suc_conv_app_nth hd_drop_conv_nth
      take_Suc)

lemma splice_delete1_miss:
  assumes "\<not> actualStart (length xs) i < length xs"
  shows "splice_delete1 xs i = (xs, [])"
  using assms by (simp add: splice_delete1_def Let_def)

lemma arrayMove_mset:
  assumes "actualStart (length xs) i < length xs"
  shows "mset (arrayMove xs i j) = mset xs"
proof -
  let ?k = "actualStart (length xs) i"
  have "mset (take ?k xs @ drop (Suc ?k) xs) + {#xs ! ?k#} = mset xs"
    using assms by (metis add_mset_add_single id_take_nth_drop mset.simps(2) mset_append union_mset_add_mset_right)
  then show ?thesis
    using assms by (simp add: arrayMove_def splice_delete1_hit mset_splice_insert)
qed

lemma arrayMove_miss:
  assumes "\<not> actualStart (length xs) i < length xs"
  shows "mset (arrayMove xs i j) = add_mset None (mset xs)"
  using assms by (simp add: arrayMove_def splice_delete1_miss mset_splice_insert)

lemma arrayMove_in_range:
  assumes "0 \<le> i" "i < int (length xs)" "0 \<le> j" "j < int (length xs)"
  shows "arrayMove xs i j =
           take (nat j) (take (nat i) xs @ drop (Suc (nat i)) xs) @ xs ! nat i #
           drop (nat j) (take (nat i) xs @ drop (Suc (nat i)) xs)"
proof -
  have k: "actualStart (length xs) i = nat i"
    using assms by (simp add: actualStart_index)
  then have hit: "actualStart (length xs) i < length xs"
    using assms by simp
  have "actualStart (length (take (nat i) xs @ drop (Suc (nat i)) xs)) j = nat j"
    using assms by (simp add: actualStart_def)
  then show ?thesis
    using assms by (simp add: arrayMove_def splice_delete1_hit [OF hit] k splice_insert_def Let_def)
qed

lemma arrayMove_last_to_front: "arrayMove [x, y, z] 2 0 = [z, x, y]"
  by (simp add: arrayMove_def splice_delete1_def splice_insert_def actualStart_def)

lemma mset_entities: "mset (entities xs) = image_mset the (filter_mset (\<lambda>x. x \<noteq> None) (mset xs))"
  by (simp add: entities_def)

lemma arrayMove_entities: "mset (entities (arrayMove xs i j)) = mset (entities xs)"
  by (cases "actualStart (length xs) i < length xs")
     (simp_all add: mset_entities arrayMove_mset arrayMove_miss)

lemma entities_append: "entities (xs @ ys) = entities xs @ entities ys"
  by (simp add: entities_def)

lemma entities_Cons: "entities (x # xs) = (case x of None \<Rightarrow> entities xs | Some e \<Rightarrow> e # entities xs)"
  by (simp add: entities_def split: option.splits)

lemma entities_Nil: "entities [] = []"
  by (simp add: entities_def)

lemma set_entities: "set (entities xs) = {e. Some e \<in> set xs}"
  by (force simp: entities_def)

lemma at_index_Cons: "at_index (x # xs) i = (if i = 0 then x else at_index xs (i - 1))"
  by (auto simp: at_index_def nth_Cons' nat_diff_distrib)

lemma at_index_Nil: "at_index [] i = None"
  by (auto simp: at_index_def)

subsection \<open>Looking an id up\<close>

text \<open>
  A lookup that returns gives \<open>-1\<close> exactly when no entity of the array has the id, and
  otherwise the position of an entity with that id; it returns whenever no slot of the
  array is \<^verbatim>\<open>undefined\<close>.
\<close>

lemma findIndex_range: "findIndex p xs = Inr i \<Longrightarrow> - 1 \<le> i \<and> i < int (length xs)"
  by (induction xs arbitrary: i) (auto split: sum.splits bool.splits if_splits)

lemma findIndex_stale:
  assumes "findIndex p xs = Inr i"
  shows "(i = - 1) = (\<forall>x\<in>set xs. p x = Inr False)"
  using assms
proof (induction xs arbitrary: i)
  case Nil
  then show ?case by simp
next
  case (Cons x xs)
  then show ?case
    using findIndex_range [of p xs]
    by (auto split: sum.splits bool.splits if_splits)
qed

lemma findIndex_found:
  assumes "findIndex p xs = Inr i" and "i \<noteq> - 1"
  shows "0 \<le> i \<and> i < int (length xs) \<and> p (xs ! nat i) = Inr True"
  using assms
proof (induction xs arbitrary: i)
  case Nil
  then show ?case by simp
next
  case (Cons x xs)
  show ?case
  proof (cases "p x")
    case (Inl e)
    with Cons.prems show ?thesis by simp
  next
    case (Inr b)
    show ?thesis
    proof (cases b)
      case True
      with Inr Cons.prems show ?thesis by auto
    next
      case False
      show ?thesis
      proof (cases "findIndex p xs")
        case (Inl e)
        with Inr False Cons.prems show ?thesis by simp
      next
        case rest: (Inr k)
        with Inr False Cons.prems have k: "k \<noteq> - 1" "i = k + 1"
          by (simp_all split: if_splits)
        from Cons.IH [OF rest k(1)] k(2) show ?thesis
          by (simp add: nat_add_distrib)
      qed
    qed
  qed
qed

lemma findIndexById_found:
  assumes "findIndexById items a = Inr i" and "i \<noteq> - 1"
  shows "0 \<le> i \<and> i < int (length items) \<and> (\<exists>e. at_index items i = Some e \<and> itemId e = a)"
proof -
  from findIndex_found [OF assms [unfolded findIndexById_def]]
  show ?thesis by (auto simp: at_index_def split: option.splits)
qed

lemma findIndexById_stale:
  assumes "findIndexById items a = Inr i"
  shows "(i = - 1) = (\<forall>e. Some e \<in> set items \<longrightarrow> itemId e \<noteq> a)"
proof
  assume "i = - 1"
  then have "\<forall>x\<in>set items.
          (case x of None \<Rightarrow> Inl TypeError | Some e \<Rightarrow> Inr (itemId e = a)) = Inr False"
    using findIndex_stale [OF assms [unfolded findIndexById_def]] by simp
  then show "\<forall>e. Some e \<in> set items \<longrightarrow> itemId e \<noteq> a"
    by fastforce
next
  assume none: "\<forall>e. Some e \<in> set items \<longrightarrow> itemId e \<noteq> a"
  show "i = - 1"
  proof (rule ccontr)
    assume "i \<noteq> - 1"
    from findIndexById_found [OF assms this]
    obtain e where "0 \<le> i" "i < int (length items)" "at_index items i = Some e" "itemId e = a"
      by auto
    then have "Some e \<in> set items"
      by (metis at_index_def nth_mem nat_less_iff)
    with none \<open>itemId e = a\<close> show False by simp
  qed
qed

lemma findIndexById_defined:
  assumes "None \<notin> set items"
  shows "\<exists>i. findIndexById items a = Inr i"
  unfolding findIndexById_def
  using assms
proof (induction items)
  case Nil
  then show ?case by simp
next
  case (Cons x xs)
  then obtain e i where "x = Some e"
    and "findIndex (\<lambda>item. case item of None \<Rightarrow> Inl TypeError
                                | Some e \<Rightarrow> Inr (itemId e = a)) xs = Inr i"
    by (cases x) auto
  then show ?case by (cases "itemId e = a") simp_all
qed

lemma arrayMove_found_mset:
  assumes "findIndex p xs = Inr i" and "i \<noteq> - 1"
  shows "mset (arrayMove xs i j) = mset xs"
proof -
  from assms findIndex_range [OF assms(1)] have "0 \<le> i" "i < int (length xs)" by auto
  then have "actualStart (length xs) i < length xs"
    by (simp add: actualStart_index)
  then show ?thesis by (rule arrayMove_mset)
qed

lemma arrayMove_findIndex_mset:
  assumes "findIndex p xs = Inr i" and "xs \<noteq> []"
  shows "mset (arrayMove xs i j) = mset xs"
proof (cases "i = - 1")
  case True
  with assms(2) have "actualStart (length xs) i < length xs"
    by (simp add: actualStart_last)
  then show ?thesis by (rule arrayMove_mset)
next
  case False
  with assms(1) show ?thesis by (rule arrayMove_found_mset)
qed

subsection \<open>Deleting\<close>

lemma deleteItem_byIndex_hit:
  assumes "0 \<le> i" and "i < int (length xs)"
  shows "deleteItem_byIndex i xs = take (nat i) xs @ drop (Suc (nat i)) xs"
proof -
  have "map snd (filter (\<lambda>(k, _). int k \<noteq> i) (enumerate n xs))
          = take (nat (i - int n)) xs @ drop (Suc (nat (i - int n))) xs"
    if "int n \<le> i" "i < int n + int (length xs)" for n
    using that
  proof (induction xs arbitrary: n)
    case Nil
    then show ?case by simp
  next
    case (Cons x xs)
    show ?case
    proof (cases "int n = i")
      case True
      have "filter (\<lambda>(k, _). int k \<noteq> i) (enumerate (Suc n) xs) = enumerate (Suc n) xs"
        using True by (auto simp: filter_id_conv in_set_enumerate_eq)
      with True show ?thesis by simp
    next
      case False
      with Cons.prems have *: "int (Suc n) \<le> i" "i < int (Suc n) + int (length xs)" by auto
      have "nat (i - int n) = Suc (nat (i - int (Suc n)))" using * by simp
      with False Cons.IH [OF *] show ?thesis by simp
    qed
  qed
  from this [of 0] assms show ?thesis by (simp add: deleteItem_byIndex_def)
qed

lemma deleteItem_byIndex_miss:
  assumes "i < 0 \<or> int (length xs) \<le> i"
  shows "deleteItem_byIndex i xs = xs"
proof -
  have "filter (\<lambda>(k, _). int k \<noteq> i) (enumerate 0 xs) = enumerate 0 xs"
    using assms by (auto simp: filter_id_conv in_set_enumerate_eq)
  then show ?thesis by (simp add: deleteItem_byIndex_def del: enumerate_simps)
qed

lemma filter_throwing_defined:
  assumes "\<And>x. x \<in> set xs \<Longrightarrow> p x = Inr (q x)"
  shows "filter_throwing p xs = Inr (filter q xs)"
  using assms by (induction xs) simp_all

lemma filter_throwing_Inr:
  assumes "filter_throwing p xs = Inr ys"
  shows "ys = filter (\<lambda>x. p x = Inr True) xs \<and> (\<forall>x\<in>set xs. \<exists>b. p x = Inr b)"
  using assms
  by (induction xs arbitrary: ys) (auto split: sum.splits if_splits)

lemma deleteItem_byId_Inr:
  assumes "deleteItem_byId ref items = Inr items'"
  shows "items' = filter (\<lambda>x. \<forall>e. x = Some e \<longrightarrow> itemId e \<noteq> ref) items"
proof -
  let ?p = "\<lambda>item. case item of None \<Rightarrow> Inl TypeError | Some e \<Rightarrow> Inr (itemId e \<noteq> ref)"
  from assms have ys: "items' = filter (\<lambda>x. ?p x = Inr True) items"
    and ok: "\<forall>x\<in>set items. \<exists>b. ?p x = Inr b"
    using filter_throwing_Inr [of ?p items items'] by (simp_all add: deleteItem_byId_def)
  have "filter (\<lambda>x. ?p x = Inr True) items
          = filter (\<lambda>x. \<forall>e. x = Some e \<longrightarrow> itemId e \<noteq> ref) items"
    using ok by (intro filter_cong refl) (auto split: option.splits)
  with ys show ?thesis by simp
qed

lemma deleteItem_byId_defined:
  assumes "None \<notin> set items"
  shows "deleteItem_byId ref items = Inr (filter (\<lambda>x. \<forall>e. x = Some e \<longrightarrow> itemId e \<noteq> ref) items)"
  unfolding deleteItem_byId_def
proof (rule filter_throwing_defined)
  fix x assume "x \<in> set items"
  with assms obtain e where "x = Some e" by (cases x) auto
  then show "(case x of None \<Rightarrow> Inl TypeError | Some e \<Rightarrow> Inr (itemId e \<noteq> ref))
               = Inr (\<forall>e. x = Some e \<longrightarrow> itemId e \<noteq> ref)"
    by simp
qed

subsection \<open>The history and its view\<close>

lemma addHistoryEntries_append:
  "\<exists>new. addHistoryEntries h calls = h @ new \<and> length new = length calls"
proof (induction calls arbitrary: h)
  case Nil
  then show ?case by simp
next
  case (Cons c calls)
  obtain ty msg w now where c: "c = (ty, msg, w, now)" by (cases c) auto
  from Cons.IH [of "addHistoryEntry h ty msg w now"]
  show ?case by (auto simp: c addHistoryEntry_def)
qed

lemma slice_last:
  assumes "0 < n"
  shows "slice xs (- int n) = drop (length xs - n) xs"
proof -
  have "nat (max (int (length xs) - int n) 0) = length xs - n"
    by (simp add: max_def nat_diff_distrib')
  with assms show ?thesis
    by (simp add: slice_def actualStart_def)
qed

lemma getRecentHistory_eq:
  "getRecentHistory xs = rev (drop (length xs - nat HISTORY_DISPLAY_LIMIT) xs)"
proof -
  have "slice xs (- int 5) = drop (length xs - 5) xs" by (rule slice_last) simp
  then show ?thesis by (simp add: getRecentHistory_def HISTORY_DISPLAY_LIMIT_def)
qed

lemma length_getRecentHistory:
  "length (getRecentHistory xs) = min (nat HISTORY_DISPLAY_LIMIT) (length xs)"
  by (simp add: getRecentHistory_eq)

lemma getRecentHistory_nth:
  assumes "k < length (getRecentHistory xs)"
  shows "getRecentHistory xs ! k = xs ! (length xs - 1 - k)"
proof -
  let ?d = "length xs - nat HISTORY_DISPLAY_LIMIT"
  from assms have k: "k < length (drop ?d xs)"
    by (simp add: getRecentHistory_eq)
  then have "rev (drop ?d xs) ! k = drop ?d xs ! (length (drop ?d xs) - Suc k)"
    by (rule rev_nth)
  also have "\<dots> = xs ! (?d + (length (drop ?d xs) - Suc k))"
    by (rule nth_drop) simp
  also have "?d + (length (drop ?d xs) - Suc k) = length xs - 1 - k"
    using k by simp
  finally show ?thesis by (simp add: getRecentHistory_eq)
qed

section \<open>Reordering keeps the entities\<close>

text \<open>
  C1. A move keeps every entity. In identity mode the hook's \<^verbatim>\<open>handleDragEnd\<close>, with the
  application's \<^verbatim>\<open>findIndexById\<close>, leaves an array that is a permutation of the one
  before, whatever the array and the event (so after any sequence of earlier moves,
  inserts and removes): every \<^verbatim>\<open>{id, value}\<close> pair is there afterwards as often as
  before, none changed, dropped or duplicated. The handler \<^verbatim>\<open>handleCorrectDragEnd\<close> of
  App.jsx, which calls \<^verbatim>\<open>arrayMove\<close> with the indices as \<^verbatim>\<open>findIndex\<close> gives them,
  keeps the entities of the array in the same way, and permutes the array when it is
  not empty.
\<close>

theorem move_keeps_entities:
  "(handleDragEnd_byId findIndexById items ev = Inr (items', r) \<longrightarrow> mset items' = mset items)
   \<and> (handleCorrectDragEnd_App st ev' now = Inr st' \<longrightarrow>
        mset (entities (correctItems st')) = mset (entities (correctItems st))
        \<and> (correctItems st \<noteq> [] \<longrightarrow> mset (correctItems st') = mset (correctItems st)))"
proof (intro conjI impI)
  assume "handleDragEnd_byId findIndexById items ev = Inr (items', r)"
  then show "mset items' = mset items"
    by (auto simp: handleDragEnd_byId_def findIndexById_def arrayMove_found_mset
        split: option.splits if_splits sum.splits)
next
  assume "handleCorrectDragEnd_App st ev' now = Inr st'"
  then show "mset (entities (correctItems st')) = mset (entities (correctItems st))"
    by (auto simp: handleCorrectDragEnd_App_def arrayMove_entities Let_def
        split: option.splits if_splits sum.splits)
next
  assume "handleCorrectDragEnd_App st ev' now = Inr st'" and "correctItems st \<noteq> []"
  then show "mset (correctItems st') = mset (correctItems st)"
    by (auto simp: handleCorrectDragEnd_App_def findIndexById_def arrayMove_findIndex_mset
        Let_def split: option.splits if_splits sum.splits)
qed

theorem move_keeps_entities_witness:
  "handleDragEnd_byId findIndexById
     [Some \<lparr>itemId = ''a'', itemValue = Text ''A''\<rparr>, Some \<lparr>itemId = ''b'', itemValue = Text ''B''\<rparr>]
     \<lparr>active = Some ''b'', over = Some ''a''\<rparr>
   = Inr ([Some \<lparr>itemId = ''b'', itemValue = Text ''B''\<rparr>, Some \<lparr>itemId = ''a'', itemValue = Text ''A''\<rparr>],
          Some \<lparr>oldIndex = 1, newIndex = 0, activeId = ''b'', overId = ''a''\<rparr>)
   \<and> mset [Some \<lparr>itemId = ''b'', itemValue = Text ''B''\<rparr>, Some \<lparr>itemId = ''a'', itemValue = Text ''A''\<rparr>]
     = mset [Some \<lparr>itemId = ''a'', itemValue = Text ''A''\<rparr>, Some \<lparr>itemId = ''b'', itemValue = Text ''B''\<rparr>]
   \<and> handleCorrectDragEnd_App
       \<lparr>wrongItems = [], generatedItems = [],
        correctItems = [Some \<lparr>itemId = ''a'', itemValue = Text ''A''\<rparr>,
                        Some \<lparr>itemId = ''b'', itemValue = Text ''B''\<rparr>],
        history = []\<rparr>
       \<lparr>active = Some ''b'', over = Some ''a''\<rparr> ''12:00''
   = Inr \<lparr>wrongItems = [], generatedItems = [],
          correctItems = [Some \<lparr>itemId = ''b'', itemValue = Text ''B''\<rparr>,
                          Some \<lparr>itemId = ''a'', itemValue = Text ''A''\<rparr>],
          history = [\<lparr>type = CORRECT, message = MovedIdToPosition ''b'' 0,
                      timestamp = ''12:00'', warning = False\<rparr>]\<rparr>
   \<and> mset (entities [Some \<lparr>itemId = ''b'', itemValue = Text ''B''\<rparr>,
                      Some \<lparr>itemId = ''a'', itemValue = Text ''A''\<rparr>])
     = mset (entities [Some \<lparr>itemId = ''a'', itemValue = Text ''A''\<rparr>,
                        Some \<lparr>itemId = ''b'', itemValue = Text ''B''\<rparr>])"
proof -
  let ?a = "Some \<lparr>itemId = ''a'', itemValue = Text ''A''\<rparr>"
  let ?b = "Some \<lparr>itemId = ''b'', itemValue = Text ''B''\<rparr>"
  let ?ev = "\<lparr>active = Some ''b'', over = Some ''a''\<rparr>"
  let ?r = "Some \<lparr>oldIndex = 1, newIndex = 0, activeId = ''b'', overId = ''a''\<rparr>"
  let ?st = "\<lparr>wrongItems = [], generatedItems = [], correctItems = [?a, ?b], history = []\<rparr>"
  let ?st' = "\<lparr>wrongItems = [], generatedItems = [], correctItems = [?b, ?a],
               history = [\<lparr>type = CORRECT, message = MovedIdToPosition ''b'' 0,
                           timestamp = ''12:00'', warning = False\<rparr>]\<rparr>"
  have move: "arrayMove [?a, ?b] 1 0 = [?b, ?a]"
    by (simp add: arrayMove_def splice_delete1_def splice_insert_def actualStart_def)
  have hook: "handleDragEnd_byId findIndexById [?a, ?b] ?ev = Inr ([?b, ?a], ?r)"
    by (simp add: handleDragEnd_byId_def findIndexById_def move)
  have app: "handleCorrectDragEnd_App ?st ?ev ''12:00'' = Inr ?st'"
    by (simp add: handleCorrectDragEnd_App_def findIndexById_def move)
  from move_keeps_entities [of "[?a, ?b]" ?ev "[?b, ?a]" ?r ?st ?ev "''12:00''" ?st'] hook app
  show ?thesis by simp
qed

section \<open>The stale index\<close>

text \<open>
  C2. In index mode, take four items \<open>a, b, c, d\<close> with \<open>c \<noteq> d\<close>. Index 2 denotes \<open>c\<close>.
  After the delete handler is called with index 1 the items are \<open>a, c, d\<close> and index 2
  denotes \<open>d\<close>; the drag handler called with active 2 and over 0 then moves \<open>d\<close>, not
  \<open>c\<close>, to the front. This holds for the handlers of App.jsx and for those of
  App.refactored.jsx.
\<close>

theorem stale_index_moves_other_entity:
  assumes "wrongItems st = [a, b, c, d]" and "c \<noteq> d"
  shows "at_index (wrongItems st) 2 = c
       \<and> wrongItems (handleWrongDelete_App st 1 t1) = [a, c, d]
       \<and> at_index (wrongItems (handleWrongDelete_App st 1 t1)) 2 = d
       \<and> at_index (wrongItems (handleWrongDelete_App st 1 t1)) 2 \<noteq> at_index (wrongItems st) 2
       \<and> map_sum id wrongItems
            (handleWrongDragEnd_App (handleWrongDelete_App st 1 t1)
               \<lparr>active = Some 2, over = Some 0\<rparr> t2) = Inr [d, a, c]
       \<and> wrongItems (handleWrongDelete st 1 t1) = [a, c, d]
       \<and> map_sum id wrongItems
            (handleWrongDragEnd (handleWrongDelete st 1 t1)
               \<lparr>active = Some 2, over = Some 0\<rparr> t2) = Inr [d, a, c]"
proof -
  have del: "deleteItem_byIndex 1 [a, b, c, d] = [a, c, d]"
    by (simp add: deleteItem_byIndex_hit)
  have del_App: "wrongItems (handleWrongDelete_App st 1 t1) = [a, c, d]"
    using assms(1) del by (simp add: handleWrongDelete_App_def deleteItem_byIndex_def Let_def)
  have del_hook: "wrongItems (handleWrongDelete st 1 t1) = [a, c, d]"
    using assms(1) del by (simp add: handleWrongDelete_def Let_def)
  have "map_sum id wrongItems
          (handleWrongDragEnd_App (handleWrongDelete_App st 1 t1)
             \<lparr>active = Some 2, over = Some 0\<rparr> t2) = Inr [d, a, c]"
    by (simp add: handleWrongDragEnd_App_def del_App arrayMove_last_to_front Let_def)
  moreover have "map_sum id wrongItems
          (handleWrongDragEnd (handleWrongDelete st 1 t1)
             \<lparr>active = Some 2, over = Some 0\<rparr> t2) = Inr [d, a, c]"
    by (simp add: handleWrongDragEnd_def handleDragEnd_byIndex_def del_hook
        arrayMove_last_to_front Let_def)
  moreover have "at_index (wrongItems st) 2 = c" "at_index [a, c, d] 2 = d"
    using assms(1) by (simp_all add: at_index_Cons)
  ultimately show ?thesis
    using assms(2) del_App del_hook by simp
qed

theorem stale_index_moves_other_entity_witness:
  "Some ''C'' \<noteq> Some ''D''
   \<and> at_index [Some ''A'', Some ''B'', Some ''C'', Some ''D''] 2 = Some ''C''
   \<and> map_sum id wrongItems
        (handleWrongDragEnd_App
           (handleWrongDelete_App
              \<lparr>wrongItems = [Some ''A'', Some ''B'', Some ''C'', Some ''D''],
                generatedItems = [], correctItems = [], history = []\<rparr> 1 ''12:00'')
           \<lparr>active = Some 2, over = Some 0\<rparr> ''12:01'')
      = Inr [Some ''D'', Some ''A'', Some ''C'']"
  using stale_index_moves_other_entity
    [of "\<lparr>wrongItems = [Some ''A'', Some ''B'', Some ''C'', Some ''D''],
          generatedItems = [], correctItems = [], history = []\<rparr>"
        "Some ''A''" "Some ''B''" "Some ''C''" "Some ''D''" "''12:00''" "''12:01''"]
  by simp

section \<open>A reorder request in identity mode\<close>

text \<open>
  C3, as the code has it. In identity mode, for a request whose two references are looked
  up to \<open>i\<close> and \<open>j\<close>: if the two references are equal, or if either is not the id of any
  entity of the array (its lookup gives \<open>-1\<close>), \<^verbatim>\<open>handleGeneratedDragEnd\<close> leaves the
  items and the history as they are, so nothing is recorded for a stale reference;
  otherwise the items become \<open>arrayMove items i j\<close>, where \<open>i\<close> and \<open>j\<close> are positions of
  entities with the two ids, and one entry, which is not a warning, is added to the
  history.
\<close>

theorem identity_reorder_outcomes:
  assumes "findIndexById (generatedItems st) a = Inr i"
    and "findIndexById (generatedItems st) b = Inr j"
  shows "handleGeneratedDragEnd st \<lparr>active = Some a, over = Some b\<rparr> now =
           (if a = b \<or> i = - 1 \<or> j = - 1 then Inr st
            else Inr (st\<lparr>generatedItems := arrayMove (generatedItems st) i j,
                         history := history st @
                           [\<lparr>type = GENERATED, message = MovedIdToPosition a j,
                             timestamp = now, warning = False\<rparr>]\<rparr>))
       \<and> ((i = - 1) = (\<forall>e. Some e \<in> set (generatedItems st) \<longrightarrow> itemId e \<noteq> a))
       \<and> ((j = - 1) = (\<forall>e. Some e \<in> set (generatedItems st) \<longrightarrow> itemId e \<noteq> b))
       \<and> (i \<noteq> - 1 \<longrightarrow> (\<exists>e. at_index (generatedItems st) i = Some e \<and> itemId e = a))
       \<and> (j \<noteq> - 1 \<longrightarrow> (\<exists>e. at_index (generatedItems st) j = Some e \<and> itemId e = b))"
proof -
  have "handleGeneratedDragEnd st \<lparr>active = Some a, over = Some b\<rparr> now =
           (if a = b \<or> i = - 1 \<or> j = - 1 then Inr st
            else Inr (st\<lparr>generatedItems := arrayMove (generatedItems st) i j,
                         history := history st @
                           [\<lparr>type = GENERATED, message = MovedIdToPosition a j,
                             timestamp = now, warning = False\<rparr>]\<rparr>))"
    using assms
    by (simp add: handleGeneratedDragEnd_def handleDragEnd_byId_def addHistoryEntry_def)
  moreover note findIndexById_stale [OF assms(1)] findIndexById_stale [OF assms(2)]
  moreover have "i \<noteq> - 1 \<longrightarrow> (\<exists>e. at_index (generatedItems st) i = Some e \<and> itemId e = a)"
    using findIndexById_found [OF assms(1)] by blast
  moreover have "j \<noteq> - 1 \<longrightarrow> (\<exists>e. at_index (generatedItems st) j = Some e \<and> itemId e = b)"
    using findIndexById_found [OF assms(2)] by blast
  ultimately show ?thesis by blast
qed

theorem identity_reorder_outcomes_witness:
  "findIndexById
     [Some \<lparr>itemId = ''a'', itemValue = Text ''A''\<rparr>, Some \<lparr>itemId = ''b'', itemValue = Text ''B''\<rparr>]
     ''b'' = Inr 1
   \<and> findIndexById
     [Some \<lparr>itemId = ''a'', itemValue = Text ''A''\<rparr>, Some \<lparr>itemId = ''b'', itemValue = Text ''B''\<rparr>]
     ''a'' = Inr 0
   \<and> handleGeneratedDragEnd
       \<lparr>wrongItems = [],
        generatedItems = [Some \<lparr>itemId = ''a'', itemValue = Text ''A''\<rparr>,
                          Some \<lparr>itemId = ''b'', itemValue = Text ''B''\<rparr>],
        correctItems = [], history = []\<rparr>
       \<lparr>active = Some ''b'', over = Some ''a''\<rparr> ''12:00''
     = Inr \<lparr>wrongItems = [],
            generatedItems = [Some \<lparr>itemId = ''b'', itemValue = Text ''B''\<rparr>,
                              Some \<lparr>itemId = ''a'', itemValue = Text ''A''\<rparr>],
            correctItems = [],
            history = [\<lparr>type = GENERATED, message = MovedIdToPosition ''b'' 0,
                        timestamp = ''12:00'', warning = False\<rparr>]\<rparr>"
proof -
  let ?a = "Some \<lparr>itemId = ''a'', itemValue = Text ''A''\<rparr>"
  let ?b = "Some \<lparr>itemId = ''b'', itemValue = Text ''B''\<rparr>"
  let ?st = "\<lparr>wrongItems = [], generatedItems = [?a, ?b], correctItems = [], history = []\<rparr>"
  have i: "findIndexById (generatedItems ?st) ''b'' = Inr 1"
    and j: "findIndexById (generatedItems ?st) ''a'' = Inr 0"
    by (simp_all add: findIndexById_def)
  have move: "arrayMove [?a, ?b] 1 0 = [?b, ?a]"
    by (simp add: arrayMove_def splice_delete1_def splice_insert_def actualStart_def)
  from identity_reorder_outcomes [OF i j, of "''12:00''"] i j move
  show ?thesis by simp
qed

text \<open>
  The claim has a warning entry recorded for a reference that does not resolve. Here the
  active reference is the id of no entity, and the history is still empty afterwards.
\<close>

theorem stale_reference_is_not_logged:
  "handleGeneratedDragEnd
     \<lparr>wrongItems = [],
      generatedItems = [Some \<lparr>itemId = ''a'', itemValue = Text ''A''\<rparr>],
      correctItems = [], history = []\<rparr>
     \<lparr>active = Some ''gone'', over = Some ''a''\<rparr> ''12:00''
   = Inr \<lparr>wrongItems = [],
          generatedItems = [Some \<lparr>itemId = ''a'', itemValue = Text ''A''\<rparr>],
          correctItems = [], history = []\<rparr>"
  by (simp add: handleGeneratedDragEnd_def handleDragEnd_byId_def findIndexById_def)

section \<open>The history log\<close>

text \<open>
  C4, as the code has it. \<^verbatim>\<open>addHistoryEntry\<close> never removes an entry: after any sequence
  of calls the log is the log before followed by one entry for each call. Only the view
  \<^verbatim>\<open>getRecentHistory\<close> is bounded: it holds at most \<open>HISTORY_DISPLAY_LIMIT\<close> entries.
\<close>

theorem history_log_is_unbounded:
  "length (addHistoryEntries h calls) = length h + length calls
   \<and> take (length h) (addHistoryEntries h calls) = h
   \<and> int (length (getRecentHistory (addHistoryEntries h calls))) \<le> HISTORY_DISPLAY_LIMIT
   \<and> length (getRecentHistory (addHistoryEntries h calls))
       = min (nat HISTORY_DISPLAY_LIMIT) (length h + length calls)"
proof -
  obtain new where new: "addHistoryEntries h calls = h @ new" "length new = length calls"
    using addHistoryEntries_append by blast
  have "int (min (nat HISTORY_DISPLAY_LIMIT) n) \<le> HISTORY_DISPLAY_LIMIT" for n
    by (simp add: HISTORY_DISPLAY_LIMIT_def)
  then show ?thesis
    using new by (simp add: length_getRecentHistory)
qed

text \<open>
  The claim has the log hold at most its capacity, the oldest entry being evicted. The
  only limit that the code names is \<open>HISTORY_DISPLAY_LIMIT = 5\<close>; after six calls the log
  holds all six entries, the oldest one first.
\<close>

theorem sixth_entry_evicts_nothing:
  "addHistoryEntries []
     [(WRONG, MOVE_ITEM 0 1, False, ''12:00''), (WRONG, MOVE_ITEM 1 2, False, ''12:01''),
      (WRONG, MOVE_ITEM 2 3, False, ''12:02''), (WRONG, MOVE_ITEM 3 0, False, ''12:03''),
      (WRONG, MOVE_ITEM 0 2, False, ''12:04''), (WRONG, MOVE_ITEM 1 3, False, ''12:05'')]
   = [\<lparr>type = WRONG, message = MOVE_ITEM 0 1, timestamp = ''12:00'', warning = False\<rparr>,
      \<lparr>type = WRONG, message = MOVE_ITEM 1 2, timestamp = ''12:01'', warning = False\<rparr>,
      \<lparr>type = WRONG, message = MOVE_ITEM 2 3, timestamp = ''12:02'', warning = False\<rparr>,
      \<lparr>type = WRONG, message = MOVE_ITEM 3 0, timestamp = ''12:03'', warning = False\<rparr>,
      \<lparr>type = WRONG, message = MOVE_ITEM 0 2, timestamp = ''12:04'', warning = False\<rparr>,
      \<lparr>type = WRONG, message = MOVE_ITEM 1 3, timestamp = ''12:05'', warning = False\<rparr>]
   \<and> \<not> int (length (addHistoryEntries []
     [(WRONG, MOVE_ITEM 0 1, False, ''12:00''), (WRONG, MOVE_ITEM 1 2, False, ''12:01''),
      (WRONG, MOVE_ITEM 2 3, False, ''12:02''), (WRONG, MOVE_ITEM 3 0, False, ''12:03''),
      (WRONG, MOVE_ITEM 0 2, False, ''12:04''), (WRONG, MOVE_ITEM 1 3, False, ''12:05'')]))
       \<le> HISTORY_DISPLAY_LIMIT"
  by (simp add: addHistoryEntry_def HISTORY_DISPLAY_LIMIT_def)

text \<open>
  C5. \<^verbatim>\<open>getRecentHistory\<close>, with \<open>n = HISTORY_DISPLAY_LIMIT\<close>, on the store of arrays: the
  call allocates a new array and leaves the log (and every other array) as it was; the
  new array holds the last \<open>min n (length log)\<close> entries of the log, the most recent
  first: its entry at position \<open>k\<close> is the entry of the log at position
  \<open>length log - 1 - k\<close>, so the positions in the log go down along the view.
\<close>

theorem recent_history_view:
  assumes "log < length s"
  shows "getRecentHistory_ref s log = Some (s @ [getRecentHistory (s ! log)], length s)
       \<and> (s @ [getRecentHistory (s ! log)]) ! log = s ! log
       \<and> getRecentHistory (s ! log)
           = rev (drop (length (s ! log)
                        - min (nat HISTORY_DISPLAY_LIMIT) (length (s ! log))) (s ! log))
       \<and> length (getRecentHistory (s ! log))
           = min (nat HISTORY_DISPLAY_LIMIT) (length (s ! log))
       \<and> (\<forall>k < length (getRecentHistory (s ! log)).
            getRecentHistory (s ! log) ! k = s ! log ! (length (s ! log) - 1 - k))"
proof -
  have "getRecentHistory_ref s log = Some (s @ [getRecentHistory (s ! log)], length s)"
    using assms
    by (simp add: getRecentHistory_ref_def slice_ref_def reverse_ref_def getRecentHistory_def
        nth_append)
  moreover have "(s @ [getRecentHistory (s ! log)]) ! log = s ! log"
    using assms by (simp add: nth_append)
  moreover have "getRecentHistory (s ! log)
           = rev (drop (length (s ! log)
                        - min (nat HISTORY_DISPLAY_LIMIT) (length (s ! log))) (s ! log))"
    by (simp add: getRecentHistory_eq min_def)
  ultimately show ?thesis
    using length_getRecentHistory [of "s ! log"] getRecentHistory_nth [of _ "s ! log"]
    by blast
qed

theorem recent_history_view_witness:
  "(0::nat) < length [[1, 2, 3, 4, 5, 6, 7 :: nat]]
   \<and> getRecentHistory_ref [[1, 2, 3, 4, 5, 6, 7 :: nat]] 0
     = Some ([[1, 2, 3, 4, 5, 6, 7], [7, 6, 5, 4, 3]], 1)
   \<and> length (getRecentHistory [1, 2, 3, 4, 5, 6, 7 :: nat]) = 5
   \<and> getRecentHistory [1, 2, 3, 4, 5, 6, 7 :: nat] ! 1 = 6"
proof -
  have view: "getRecentHistory [1, 2, 3, 4, 5, 6, 7 :: nat] = [7, 6, 5, 4, 3]"
    by (simp add: getRecentHistory_eq HISTORY_DISPLAY_LIMIT_def)
  have ref: "(0::nat) < length [[1, 2, 3, 4, 5, 6, 7 :: nat]]" by simp
  from recent_history_view [OF ref] view
  show ?thesis by simp
qed

section \<open>A move in index mode\<close>

text \<open>
  C6, as the code has it. In index mode \<^verbatim>\<open>handleDragEnd\<close> returns \<^verbatim>\<open>null\<close> and leaves
  the items as they are when the two indices are equal, and also when either is \<open>-1\<close>.
  No index is compared with the length and there is no failure for an index out of
  range: for every other pair of indices the items become \<open>arrayMove items i j\<close> and the
  object describing the move is returned. \<^verbatim>\<open>handleWrongDragEnd\<close> of App.jsx does
  nothing for equal indices and moves, and records the move, for all others. With
  \<open>i\<close> at or beyond the length the array gains one \<^verbatim>\<open>undefined\<close> slot; with \<open>i\<close> inside
  \<open>[0, length)\<close> the array is permuted.
\<close>

theorem index_move_has_no_range_check:
  "handleDragEnd_byIndex items \<lparr>active = Some i, over = Some j\<rparr> =
     (if i = j \<or> i = - 1 \<or> j = - 1 then Inr (items, None)
      else Inr (arrayMove items i j,
                Some \<lparr>oldIndex = i, newIndex = j, activeId = i, overId = j\<rparr>))
   \<and> handleWrongDragEnd_App st \<lparr>active = Some i, over = Some j\<rparr> now =
     (if i = j then Inr st
      else Inr (st\<lparr>wrongItems := arrayMove (wrongItems st) i j,
                   history := history st @
                     [\<lparr>type = WRONG, message = MovedIndexToIndex i j, timestamp = now,
                       warning = False\<rparr>]\<rparr>))
   \<and> (int (length items) \<le> i \<longrightarrow> mset (arrayMove items i j) = add_mset None (mset items))
   \<and> (0 \<le> i \<and> i < int (length items) \<longrightarrow> mset (arrayMove items i j) = mset items)"
proof (intro conjI impI)
  show "handleDragEnd_byIndex items \<lparr>active = Some i, over = Some j\<rparr> =
     (if i = j \<or> i = - 1 \<or> j = - 1 then Inr (items, None)
      else Inr (arrayMove items i j,
                Some \<lparr>oldIndex = i, newIndex = j, activeId = i, overId = j\<rparr>))"
    by (simp add: handleDragEnd_byIndex_def)
  show "handleWrongDragEnd_App st \<lparr>active = Some i, over = Some j\<rparr> now =
     (if i = j then Inr st
      else Inr (st\<lparr>wrongItems := arrayMove (wrongItems st) i j,
                   history := history st @
                     [\<lparr>type = WRONG, message = MovedIndexToIndex i j, timestamp = now,
                       warning = False\<rparr>]\<rparr>))"
    by (simp add: handleWrongDragEnd_App_def)
next
  assume "int (length items) \<le> i"
  then have "\<not> actualStart (length items) i < length items"
    by (simp add: actualStart_def)
  then show "mset (arrayMove items i j) = add_mset None (mset items)"
    by (rule arrayMove_miss)
next
  assume "0 \<le> i \<and> i < int (length items)"
  then have "actualStart (length items) i < length items"
    by (auto simp: actualStart_index)
  then show "mset (arrayMove items i j) = mset items"
    by (rule arrayMove_mset)
qed

theorem index_move_has_no_range_check_witness:
  "handleDragEnd_byIndex [Some ''A'', Some ''B''] \<lparr>active = Some 5, over = Some 0\<rparr>
     = Inr (arrayMove [Some ''A'', Some ''B''] 5 0,
            Some \<lparr>oldIndex = 5, newIndex = 0, activeId = 5, overId = 0\<rparr>)
   \<and> mset (arrayMove [Some ''A'', Some ''B''] 5 0) = add_mset None (mset [Some ''A'', Some ''B''])
   \<and> mset (arrayMove [Some ''A'', Some ''B''] 1 0) = mset [Some ''A'', Some ''B'']"
  using index_move_has_no_range_check [of "[Some ''A'', Some ''B'']" 5 0]
    index_move_has_no_range_check [of "[Some ''A'', Some ''B'']" 1 0]
  by simp

text \<open>
  The claim has a move fail with OutOfRange, the collection unchanged, when an index is
  outside \<open>[0, length)\<close>. Here the length is 4 and the old index is 7: the call returns the
  object describing a move and the array is changed.
\<close>

theorem out_of_range_move_succeeds:
  "handleDragEnd_byIndex [Some ''A'', Some ''B'', Some ''C'', Some ''D'']
     \<lparr>active = Some 7, over = Some 0\<rparr>
   = Inr ([None, Some ''A'', Some ''B'', Some ''C'', Some ''D''],
          Some \<lparr>oldIndex = 7, newIndex = 0, activeId = 7, overId = 0\<rparr>)"
  by (simp add: handleDragEnd_byIndex_def arrayMove_def splice_delete1_def splice_insert_def
      actualStart_def)

section \<open>Inserting\<close>

text \<open>
  C7, as the code has it. \<^verbatim>\<open>addItem\<close> appends the item to the end of the array, and
  \<^verbatim>\<open>handleAddGeneratedItem\<close> appends the new entity and records the addition. Neither
  looks for the id in the array: an item that is already there is appended again, and
  when the generated id is the id of an entity of the array, two entities have that id
  afterwards.
\<close>

theorem insert_appends_without_check:
  "length (addItem item prevItems) = Suc (length prevItems)
   \<and> take (length prevItems) (addItem item prevItems) = prevItems
   \<and> last (addItem item prevItems) = item
   \<and> (item \<in> set prevItems \<longrightarrow> \<not> distinct (addItem item prevItems))
   \<and> handleAddGeneratedItem st generated now =
       st\<lparr>generatedItems := generatedItems st @
             [Some \<lparr>itemId = generated,
                    itemValue = NewItemText (int (length (generatedItems st)) + 1)\<rparr>],
          history := history st @
             [\<lparr>type = GENERATED,
               message = ADD_ITEM (NewItemText (int (length (generatedItems st)) + 1)),
               timestamp = now, warning = False\<rparr>]\<rparr>
   \<and> ((\<exists>e. Some e \<in> set (generatedItems st) \<and> itemId e = generated) \<longrightarrow>
        \<not> distinct (map itemId
             (entities (generatedItems (handleAddGeneratedItem st generated now)))))"
proof -
  have run: "handleAddGeneratedItem st generated now =
       st\<lparr>generatedItems := generatedItems st @
             [Some \<lparr>itemId = generated,
                    itemValue = NewItemText (int (length (generatedItems st)) + 1)\<rparr>],
          history := history st @
             [\<lparr>type = GENERATED,
               message = ADD_ITEM (NewItemText (int (length (generatedItems st)) + 1)),
               timestamp = now, warning = False\<rparr>]\<rparr>"
    by (simp add: handleAddGeneratedItem_def addItem_def createItemWithId_def
        addHistoryEntry_def Let_def)
  have dup: "\<not> distinct (map itemId
             (entities (generatedItems (handleAddGeneratedItem st generated now))))"
    if "\<exists>e. Some e \<in> set (generatedItems st) \<and> itemId e = generated"
  proof -
    from that have "generated \<in> itemId ` set (entities (generatedItems st))"
      by (auto simp: set_entities)
    then show ?thesis
      by (simp add: run entities_append entities_Cons entities_Nil)
  qed
  show ?thesis
    using run dup by (simp add: addItem_def)
qed

theorem insert_appends_without_check_witness:
  "handleAddGeneratedItem
     \<lparr>wrongItems = [], generatedItems = [Some \<lparr>itemId = ''x'', itemValue = Text ''A''\<rparr>],
       correctItems = [], history = []\<rparr> ''x'' ''12:00''
   = \<lparr>wrongItems = [],
       generatedItems = [Some \<lparr>itemId = ''x'', itemValue = Text ''A''\<rparr>,
                         Some \<lparr>itemId = ''x'', itemValue = NewItemText 2\<rparr>],
       correctItems = [],
       history = [\<lparr>type = GENERATED, message = ADD_ITEM (NewItemText 2),
                   timestamp = ''12:00'', warning = False\<rparr>]\<rparr>
   \<and> \<not> distinct (map itemId (entities
         [Some \<lparr>itemId = ''x'', itemValue = Text ''A''\<rparr>,
          Some \<lparr>itemId = ''x'', itemValue = NewItemText 2\<rparr>]))
   \<and> \<not> distinct (addItem (1::nat) [1, 2])"
proof -
  let ?st = "\<lparr>wrongItems = [], generatedItems = [Some \<lparr>itemId = ''x'', itemValue = Text ''A''\<rparr>],
       correctItems = [], history = []\<rparr>"
  have ex: "\<exists>e. Some e \<in> set (generatedItems ?st) \<and> itemId e = ''x''"
    by simp
  have mem: "(1::nat) \<in> set [1, 2]" by simp
  have run: "generatedItems (handleAddGeneratedItem ?st ''x'' ''12:00'')
      = [Some \<lparr>itemId = ''x'', itemValue = Text ''A''\<rparr>,
         Some \<lparr>itemId = ''x'', itemValue = NewItemText 2\<rparr>]"
    by (simp add: handleAddGeneratedItem_def addItem_def createItemWithId_def Let_def)
  from insert_appends_without_check [of "1::nat" "[1, 2]" ?st "''x''" "''12:00''"] ex mem run
  show ?thesis by simp
qed

text \<open>
  The claim has the insertion fail with DuplicateId, the collection unchanged, when the id
  exists. Here the generated id is the id of the only entity, and the array has two
  entities with that id afterwards.
\<close>

theorem duplicate_id_is_appended:
  "generatedItems
     (handleAddGeneratedItem
        \<lparr>wrongItems = [], generatedItems = [Some \<lparr>itemId = ''x'', itemValue = Text ''A''\<rparr>],
          correctItems = [], history = []\<rparr> ''x'' ''12:00'')
   = [Some \<lparr>itemId = ''x'', itemValue = Text ''A''\<rparr>,
      Some \<lparr>itemId = ''x'', itemValue = NewItemText 2\<rparr>]"
  by (simp add: handleAddGeneratedItem_def addItem_def createItemWithId_def Let_def)

section \<open>A request with a null reference\<close>

text \<open>
  C8, as the code has it. When the over reference is \<^verbatim>\<open>null\<close>, \<^verbatim>\<open>handleDragEnd\<close> returns
  \<^verbatim>\<open>null\<close> and leaves the items as they are, in both modes and whatever the active
  reference is: the outcome of a request whose two references are equal. The handlers
  of the application then leave items and history as they are. Only an active reference
  that is \<^verbatim>\<open>null\<close> while the over reference is not makes the call throw (a TypeError,
  from reading \<^verbatim>\<open>active.id\<close>). The handlers of App.jsx have no such guard and throw a
  TypeError when the over reference is \<^verbatim>\<open>null\<close>.
\<close>

theorem null_reference_outcomes:
  "handleDragEnd_byId f items \<lparr>active = a, over = None\<rparr> = Inr (items, None)
   \<and> handleDragEnd_byIndex xs \<lparr>active = k, over = None\<rparr> = Inr (xs, None)
   \<and> handleDragEnd_byId f items \<lparr>active = Some r, over = Some r\<rparr> = Inr (items, None)
   \<and> handleGeneratedDragEnd st \<lparr>active = b, over = None\<rparr> now = Inr st
   \<and> handleWrongDragEnd st \<lparr>active = k, over = None\<rparr> now = Inr st
   \<and> handleDragEnd_byId f items \<lparr>active = None, over = Some r\<rparr> = Inl TypeError
   \<and> handleDragEnd_byIndex xs \<lparr>active = None, over = Some n\<rparr> = Inl TypeError
   \<and> handleWrongDragEnd_App st \<lparr>active = k, over = None\<rparr> now = Inl TypeError
   \<and> handleCorrectDragEnd_App st \<lparr>active = b, over = None\<rparr> now = Inl TypeError"
  by (simp add: handleDragEnd_byId_def handleDragEnd_byIndex_def handleGeneratedDragEnd_def
      handleWrongDragEnd_def handleWrongDragEnd_App_def handleCorrectDragEnd_App_def
      split: option.splits)

text \<open>
  The claim has a request with a null reference fail loudly. Here the over reference is
  \<^verbatim>\<open>null\<close>, and the call returns \<^verbatim>\<open>null\<close> with the items unchanged.
\<close>

theorem null_over_returns_null:
  "handleDragEnd_byId findIndexById [Some \<lparr>itemId = ''a'', itemValue = Text ''A''\<rparr>]
     \<lparr>active = Some ''a'', over = None\<rparr>
   = Inr ([Some \<lparr>itemId = ''a'', itemValue = Text ''A''\<rparr>], None)"
  by (simp add: handleDragEnd_byId_def)

section \<open>Deleting keeps the other entities\<close>

text \<open>
  C9. In identity mode, when \<^verbatim>\<open>deleteItem\<close> returns, the array is the array before without
  the entities whose id is the reference: every other entity is there as often as
  before, unchanged and in the same order (the result is a subsequence). It returns
  whenever no slot is \<^verbatim>\<open>undefined\<close>. In index mode the array is the array before
  without the slot at the index, the other slots unchanged and in the same order; an
  index that is not one of the array removes nothing.
\<close>

theorem delete_keeps_the_other_entities:
  "(deleteItem_byId ref items = Inr items' \<longrightarrow>
      items' = filter (\<lambda>x. \<forall>e. x = Some e \<longrightarrow> itemId e \<noteq> ref) items
      \<and> subseq items' items
      \<and> (\<forall>e. itemId e \<noteq> ref \<longrightarrow> count (mset items') (Some e) = count (mset items) (Some e)))
   \<and> (None \<notin> set items \<longrightarrow> (\<exists>items'. deleteItem_byId ref items = Inr items'))
   \<and> deleteItem_byIndex index xs =
        (if 0 \<le> index \<and> index < int (length xs)
         then take (nat index) xs @ drop (Suc (nat index)) xs else xs)
   \<and> subseq (deleteItem_byIndex index xs) xs"
proof (intro conjI impI)
  assume a: "deleteItem_byId ref items = Inr items'"
  then show eq: "items' = filter (\<lambda>x. \<forall>e. x = Some e \<longrightarrow> itemId e \<noteq> ref) items"
    by (rule deleteItem_byId_Inr)
  then show "subseq items' items" by simp
  show "\<forall>e. itemId e \<noteq> ref \<longrightarrow> count (mset items') (Some e) = count (mset items) (Some e)"
    by (simp add: eq)
next
  assume "None \<notin> set items"
  then show "\<exists>items'. deleteItem_byId ref items = Inr items'"
    by (simp add: deleteItem_byId_defined)
next
  show eq: "deleteItem_byIndex index xs =
        (if 0 \<le> index \<and> index < int (length xs)
         then take (nat index) xs @ drop (Suc (nat index)) xs else xs)"
    by (simp add: deleteItem_byIndex_hit deleteItem_byIndex_miss not_le not_less)
  have "subseq (map snd (filter (\<lambda>(k, _). int k \<noteq> index) (enumerate 0 xs)))
               (map snd (enumerate 0 xs))"
    by (intro subseq_map subseq_filter_left)
  then show "subseq (deleteItem_byIndex index xs) xs"
    by (simp add: deleteItem_byIndex_def del: enumerate_simps)
qed

theorem delete_keeps_the_other_entities_witness:
  "deleteItem_byId ''a''
     [Some \<lparr>itemId = ''a'', itemValue = Text ''A''\<rparr>, Some \<lparr>itemId = ''b'', itemValue = Text ''B''\<rparr>]
   = Inr [Some \<lparr>itemId = ''b'', itemValue = Text ''B''\<rparr>]
   \<and> count (mset [Some \<lparr>itemId = ''b'', itemValue = Text ''B''\<rparr>])
        (Some \<lparr>itemId = ''b'', itemValue = Text ''B''\<rparr>)
     = count (mset [Some \<lparr>itemId = ''a'', itemValue = Text ''A''\<rparr>,
                    Some \<lparr>itemId = ''b'', itemValue = Text ''B''\<rparr>])
        (Some \<lparr>itemId = ''b'', itemValue = Text ''B''\<rparr>)
   \<and> deleteItem_byIndex 1 [Some ''A'', Some ''B'', Some ''C''] = [Some ''A'', Some ''C'']"
proof -
  let ?a = "Some \<lparr>itemId = ''a'', itemValue = Text ''A''\<rparr>"
  let ?b = "Some \<lparr>itemId = ''b'', itemValue = Text ''B''\<rparr>"
  have run: "deleteItem_byId ''a'' [?a, ?b] = Inr [?b]"
    by (simp add: deleteItem_byId_def)
  have defined: "None \<notin> set [?a, ?b]" by simp
  from delete_keeps_the_other_entities
         [of "''a''" "[?a, ?b]" "[?b]" 1 "[Some ''A'', Some ''B'', Some ''C'']"] run defined
  show ?thesis by simp
qed

section \<open>Deleting at an index out of range\<close>

text \<open>
  C10. In index mode, when the index is negative or at least the length, the delete
  handler leaves the items as they are and still adds one history entry, flagged as a
  warning, whose deleted item is \<^verbatim>\<open>undefined\<close>. This holds for \<^verbatim>\<open>handleWrongDelete\<close> of
  App.refactored.jsx and of App.jsx.
\<close>

theorem out_of_range_delete_is_logged:
  assumes "index < 0 \<or> int (length (wrongItems st)) \<le> index"
  shows "handleWrongDelete st index now =
           st\<lparr>history := history st @
                 [\<lparr>type = WRONG, message = DELETE_ITEM None, timestamp = now, warning = True\<rparr>]\<rparr>
       \<and> handleWrongDelete_App st index now =
           st\<lparr>history := history st @
                 [\<lparr>type = WRONG, message = DeletedAtIndex None index, timestamp = now,
                   warning = True\<rparr>]\<rparr>"
proof -
  have none: "at_index (wrongItems st) index = None"
    using assms by (auto simp: at_index_def)
  have same: "deleteItem_byIndex index (wrongItems st) = wrongItems st"
    using assms by (rule deleteItem_byIndex_miss)
  show ?thesis
    using none same same [unfolded deleteItem_byIndex_def]
    by (simp add: handleWrongDelete_def handleWrongDelete_App_def addHistoryEntry_def Let_def)
qed

theorem out_of_range_delete_is_logged_witness:
  "int (length [Some ''A'', Some ''B'']) \<le> 5 \<and> (- 3 :: int) < 0
   \<and> handleWrongDelete
     \<lparr>wrongItems = [Some ''A'', Some ''B''], generatedItems = [], correctItems = [],
       history = []\<rparr> 5 ''12:00''
   = \<lparr>wrongItems = [Some ''A'', Some ''B''], generatedItems = [], correctItems = [],
       history = [\<lparr>type = WRONG, message = DELETE_ITEM None, timestamp = ''12:00'',
                   warning = True\<rparr>]\<rparr>
   \<and> handleWrongDelete_App
     \<lparr>wrongItems = [Some ''A'', Some ''B''], generatedItems = [], correctItems = [],
       history = []\<rparr> (- 3) ''12:00''
   = \<lparr>wrongItems = [Some ''A'', Some ''B''], generatedItems = [], correctItems = [],
       history = [\<lparr>type = WRONG, message = DeletedAtIndex None (- 3), timestamp = ''12:00'',
                   warning = True\<rparr>]\<rparr>"
  using out_of_range_delete_is_logged
    [of 5 "\<lparr>wrongItems = [Some ''A'', Some ''B''], generatedItems = [], correctItems = [],
             history = []\<rparr>" "''12:00''"]
    out_of_range_delete_is_logged
    [of "- 3" "\<lparr>wrongItems = [Some ''A'', Some ''B''], generatedItems = [], correctItems = [],
             history = []\<rparr>" "''12:00''"]
  by simp

end
